theory Spec2Isabelle
  imports Complex_Main "HOL-Library.AList" "HOL-Library.Word"
begin

section \<open>Errors\<close>

text \<open>
  The exceptions the program can raise, as values. \<open>ReError\<close> stands for what the
  \<open>re\<close> module raises while it compiles a replacement template (\<open>re.error\<close>, and the
  \<open>IndexError\<close> for an unknown group name), \<open>ValueError\<close> for a failed tuple
  unpacking, \<open>ParseError\<close> for whatever a library parser raises on a file it cannot
  read (with its message), and \<open>FileNotFoundError\<close> for archiving a file that was not
  written.
\<close>

datatype error = ReError | ValueError | ParseError string | FileNotFoundError

section \<open>The pattern matcher: \<open>replace_text\<close>\<close>

subsection \<open>Characters and case\<close>

text \<open>
  A Python \<open>str\<close> is a sequence of code points. The model keeps the code points below
  256 (Latin-1), one \<open>char\<close> each. On these, the comparison \<open>re.IGNORECASE\<close> makes for a
  literal character is equality after lower-casing: the letters \<open>A\<close>..\<open>Z\<close> and the
  Latin-1 capitals \<open>0xC0\<close>..\<open>0xDE\<close> (but the multiplication sign \<open>0xD7\<close>) move up by
  32, everything else stays.
\<close>

definition lower_char :: "char \<Rightarrow> char" where
  "lower_char c =
     (let n = (of_char c :: nat) in
      if (65 \<le> n \<and> n \<le> 90) \<or> (192 \<le> n \<and> n \<le> 222 \<and> n \<noteq> 215)
      then char_of (n + 32) else c)"

text \<open>
  \<open>char_eq case_sensitive p c\<close>: the pattern character \<open>p\<close> accepts the text character
  \<open>c\<close>; the flag is the one \<open>replace_text\<close> receives (\<open>re.IGNORECASE\<close> is set when
  it is false).
\<close>

definition char_eq :: "bool \<Rightarrow> char \<Rightarrow> char \<Rightarrow> bool" where
  "char_eq case_sensitive p c =
     (if case_sensitive then p = c else lower_char p = lower_char c)"

subsection \<open>The compiled pattern\<close>

text \<open>
  \<open>re.compile(re.escape(find), flags)\<close> is the pattern that matches the characters of
  \<open>find\<close> one after the other and nothing else: \<open>re.escape\<close> takes the meaning away from
  every special character. \<open>match_here\<close> is the engine's attempt to match that pattern at
  the start of a text.
\<close>

fun match_here :: "bool \<Rightarrow> string \<Rightarrow> string \<Rightarrow> bool" where
  "match_here cs [] t = True"
| "match_here cs (p # ps) [] = False"
| "match_here cs (p # ps) (c # t) = (char_eq cs p c \<and> match_here cs ps t)"

subsection \<open>The replacement template\<close>

text \<open>
  \<open>pattern.subn(replace, text)\<close> reads \<open>replace\<close> as a template: a backslash starts an
  escape. The pattern has no group, so the only group reference that names something is
  \<open>\g<0>\<close>, the whole match; every other reference is an error, as are a backslash at
  the end and a backslash before an ASCII letter that is no escape. The template is
  compiled before the text is searched, so a bad template raises also when nothing
  matches.
\<close>

datatype piece = Lit char | Whole

definition backslash :: char where
  "backslash = CHR 0x5C"

definition is_digit :: "char \<Rightarrow> bool" where
  "is_digit c = (c \<in> set ''0123456789'')"

definition is_octdigit :: "char \<Rightarrow> bool" where
  "is_octdigit c = (c \<in> set ''01234567'')"

definition is_ascii_letter :: "char \<Rightarrow> bool" where
  "is_ascii_letter c =
     (c \<in> set ''abcdefghijklmnopqrstuvwxyzABCDEFGHIJKLMNOPQRSTUVWXYZ'')"

definition digit_val :: "char \<Rightarrow> nat" where
  "digit_val c = of_char c - 48"

text \<open>The value of a string of octal digits, most significant first.\<close>

definition oct_val :: "string \<Rightarrow> nat" where
  "oct_val ds = foldl (\<lambda>a d. 8 * a + digit_val d) 0 ds"

text \<open>The table \<open>ESCAPES\<close> of the template parser.\<close>

definition escapes :: "char \<Rightarrow> char option" where
  "escapes c =
     (if c = CHR ''a'' then Some (CHR 0x07)
      else if c = CHR ''b'' then Some (CHR 0x08)
      else if c = CHR ''f'' then Some (CHR 0x0C)
      else if c = CHR ''n'' then Some (CHR 0x0A)
      else if c = CHR ''r'' then Some (CHR 0x0D)
      else if c = CHR ''t'' then Some (CHR 0x09)
      else if c = CHR ''v'' then Some (CHR 0x0B)
      else if c = backslash then Some backslash
      else None)"

text \<open>
  The repository pins no Python version, and the template parser changed with
  Python 3.12: up to 3.11 the name of a group reference is read with \<open>int()\<close>, which
  takes surrounding white space, a sign and single underscores between digits; from 3.12
  on the name must consist of decimal ASCII digits. The version is a parameter of the
  model.
\<close>

datatype re_version = Re_until_3_11 | Re_from_3_12

text \<open>The white space \<open>int()\<close> strips, among the code points below 256.\<close>

definition is_int_space :: "char \<Rightarrow> bool" where
  "is_int_space c = ((of_char c :: nat) \<in> set [9, 10, 11, 12, 13, 32, 133, 160])"

definition strip_int_space :: "string \<Rightarrow> string" where
  "strip_int_space s = rev (dropWhile is_int_space (rev (dropWhile is_int_space s)))"

definition drop_sign :: "string \<Rightarrow> string" where
  "drop_sign s =
     (case s of
        [] \<Rightarrow> []
      | c # r \<Rightarrow> if c = CHR ''+'' \<or> c = CHR ''-'' then r else s)"

text \<open>Digits \<open>0\<close> only, in groups that single underscores separate.\<close>

fun zero_digits :: "string \<Rightarrow> bool" where
  "zero_digits [] = False"
| "zero_digits [c] = (c = CHR ''0'')"
| "zero_digits (c # d # s) =
     (c = CHR ''0'' \<and> (if d = CHR ''_'' then zero_digits s else zero_digits (d # s)))"

text \<open>
  Whether \<open>name\<close> refers to group 0, the only group of the pattern. A name that does not
  is an error in either version.
\<close>

definition names_group_0 :: "re_version \<Rightarrow> string \<Rightarrow> bool" where
  "names_group_0 v name =
     (case v of
        Re_until_3_11 \<Rightarrow> zero_digits (drop_sign (strip_int_space name))
      | Re_from_3_12 \<Rightarrow> name \<noteq> [] \<and> list_all (\<lambda>d. d = CHR ''0'') name)"

text \<open>
  The name of \<open>\g<name>\<close>: the characters up to the first \<open>>\<close>, and what follows
  it; \<open>None\<close> when there is no \<open>>\<close>.
\<close>

fun getuntil :: "string \<Rightarrow> (string \<times> string) option" where
  "getuntil [] = None"
| "getuntil (c # s) =
     (if c = CHR ''>'' then Some ([], s)
      else case getuntil s of None \<Rightarrow> None | Some (name, rest) \<Rightarrow> Some (c # name, rest))"

lemma getuntil_shorter: "getuntil s = Some x \<Longrightarrow> length (snd x) < length s"
  by (induction s arbitrary: x) (auto split: if_splits option.splits)

function parse_template :: "re_version \<Rightarrow> string \<Rightarrow> error + piece list" where
  "parse_template v [] = Inr []"
| "parse_template v (c # s) =
     (if c \<noteq> backslash then map_sum id ((#) (Lit c)) (parse_template v s)
      else (case s of
        [] \<Rightarrow> Inl ReError
      | e # s1 \<Rightarrow>
          (if e = CHR ''g'' then
            (case s1 of
               [] \<Rightarrow> Inl ReError
             | lt # s2 \<Rightarrow>
                 (if lt \<noteq> CHR ''<'' then Inl ReError
                  else (case getuntil s2 of
                     None \<Rightarrow> Inl ReError
                   | Some (name, rest) \<Rightarrow>
                       (if names_group_0 v name
                        then map_sum id ((#) Whole) (parse_template v rest)
                        else Inl ReError))))
          else if e = CHR ''0'' then
            (let ds = takeWhile is_octdigit (take 2 s1)
             in map_sum id ((#) (Lit (char_of (oct_val ds))))
                  (parse_template v (drop (length ds) s1)))
          else if is_digit e then
            (case s1 of
               d2 # d3 # s3 \<Rightarrow>
                 (if is_octdigit e \<and> is_octdigit d2 \<and> is_octdigit d3 then
                   (if oct_val [e, d2, d3] > 255 then Inl ReError
                    else map_sum id ((#) (Lit (char_of (oct_val [e, d2, d3]))))
                           (parse_template v s3))
                 else Inl ReError)
             | _ \<Rightarrow> Inl ReError)
          else (case escapes e of
            Some x \<Rightarrow> map_sum id ((#) (Lit x)) (parse_template v s1)
          | None \<Rightarrow>
              (if is_ascii_letter e then Inl ReError
               else map_sum id (\<lambda>ps. Lit backslash # Lit e # ps) (parse_template v s1))))))"
  by pat_completeness auto
termination
  apply (relation "measure (\<lambda>(v, s). length s)")
       apply simp_all
  subgoal for v c s e s1 lt s2 x name rest
    using getuntil_shorter [of s2 x] by (cases x) simp
  done

text \<open>What a compiled template puts in the place of a match.\<close>

fun expand_template :: "piece list \<Rightarrow> string \<Rightarrow> string" where
  "expand_template [] m = []"
| "expand_template (Lit c # ps) m = c # expand_template ps m"
| "expand_template (Whole # ps) m = m @ expand_template ps m"

subsection \<open>Substitution\<close>

text \<open>
  The search of \<open>subn\<close> for a non-empty literal pattern: at each position the pattern is
  tried; a match is replaced and the search goes on behind it, otherwise the character
  is copied and the search moves one position on.
\<close>

function subn_scan :: "bool \<Rightarrow> string \<Rightarrow> piece list \<Rightarrow> string \<Rightarrow> string \<times> nat" where
  "subn_scan cs pat tpl [] = ([], 0)"
| "subn_scan cs pat tpl (c # t) =
     (if pat \<noteq> [] \<and> match_here cs pat (c # t) then
        (let (out, n) = subn_scan cs pat tpl (drop (length pat) (c # t))
         in (expand_template tpl (take (length pat) (c # t)) @ out, Suc n))
      else
        (let (out, n) = subn_scan cs pat tpl t in (c # out, n)))"
  by pat_completeness auto
termination
  by (relation "measure (\<lambda>(cs, pat, tpl, t). length t)") auto

text \<open>
  The empty pattern matches the empty string at every position, the end included.
\<close>

definition subn_empty :: "piece list \<Rightarrow> string \<Rightarrow> string \<times> nat" where
  "subn_empty tpl t =
     (expand_template tpl [] @ concat (map (\<lambda>c. c # expand_template tpl []) t),
      Suc (length t))"

definition subn :: "bool \<Rightarrow> string \<Rightarrow> piece list \<Rightarrow> string \<Rightarrow> string \<times> nat" where
  "subn cs pat tpl t = (if pat = [] then subn_empty tpl t else subn_scan cs pat tpl t)"

text \<open>
  \<open>replace_text(text, find, replace, case_sensitive)\<close>: the modified text and the number
  of substitutions, or the error of a bad template.
\<close>

definition replace_text :: "re_version \<Rightarrow> string \<Rightarrow> string \<Rightarrow> string \<Rightarrow> bool \<Rightarrow> error + string \<times> nat" where
  "replace_text v text find' replace case_sensitive =
     (case parse_template v replace of
        Inl e \<Rightarrow> Inl e
      | Inr tpl \<Rightarrow> Inr (subn case_sensitive find' tpl text))"


subsection \<open>\<open>count_occurrences\<close>\<close>

text \<open>
  \<open>len(re.findall(re.escape(find), text, flags))\<close>: the matches \<open>findall\<close> returns are
  the ones \<open>subn\<close> replaces.
\<close>

definition count_occurrences :: "string \<Rightarrow> string \<Rightarrow> bool \<Rightarrow> nat" where
  "count_occurrences text find' case_sensitive = snd (subn case_sensitive find' [] text)"

section \<open>Uploaded files and the libraries that read them\<close>

text \<open>
  An uploaded file is a name and a byte stream with a read position: \<open>file.read()\<close> and
  the library readers consume the bytes from the position on, \<open>file.seek(0)\<close> rewinds.
\<close>

type_synonym bytes = "8 word list"

record upload =
  name :: string
  data :: bytes
  pos :: nat

definition remaining :: "upload \<Rightarrow> bytes" where
  "remaining file = drop (pos file) (data file)"

definition seek0 :: "upload \<Rightarrow> upload" where
  "seek0 file = file\<lparr>pos := 0\<rparr>"

subsection \<open>XML trees\<close>

text \<open>
  An \<open>xml.etree.ElementTree\<close> element: tag, attributes, the text before the first child,
  the tail (the text between the element's end tag and the next sibling), the children.
\<close>

datatype elem =
  Element (tag: string) (attrib: "(string \<times> string) list")
          (elem_text: "string option") (elem_tail: "string option")
          (children: "elem list")

subsection \<open>Data frames\<close>

text \<open>
  A column of a data frame: its header, whether its dtype is \<open>object\<close>, its cells. A cell
  of an object column is a string, the missing value \<open>NaN\<close>, or another Python object,
  kept as the text \<open>str()\<close> gives for it (a boolean of a column with gaps, say); the cells
  of the other columns are numbers, kept the same way. \<open>read_csv\<close> makes the headers
  distinct, so a column is addressed by its place.
\<close>

datatype cell = Str string | NaN | Other string

datatype dtype = Object | Numeric

record column =
  header :: string
  dtype :: dtype
  cells :: "cell list"

subsection \<open>PDF documents\<close>

text \<open>
  A block of \<open>page.get_text("blocks")\<close> is the tuple
  \<open>(x0, y0, x1, y1, text, block_no, block_type)\<close>. A page is the blocks it had when it was
  opened and the mutating calls made on it since, in order; the handler only passes the
  coordinates on, so they are kept as reals.
\<close>

record block =
  x0 :: real
  y0 :: real
  x1 :: real
  y1 :: real
  btext :: string
  block_no :: nat
  block_type :: nat

datatype page_op =
  AddRedactAnnot "real \<times> real \<times> real \<times> real" "nat \<times> nat \<times> nat"
| ApplyRedactions
| InsertText "real \<times> real" string nat

record page =
  blocks :: "block list"
  ops :: "page_op list"

subsection \<open>The library readers\<close>

text \<open>
  \<open>fitz.open(stream=..., filetype="pdf")\<close>, \<open>pd.read_csv\<close> and \<open>ET.parse\<close> are not
  part of the program; they are parameters, each a function from the bytes it reads to
  the document or the exception it raises. With them goes the version of \<open>re\<close> that
  is installed.
\<close>

record libs =
  re_version :: re_version
  fitz_open :: "bytes \<Rightarrow> error + page list"
  read_csv :: "bytes \<Rightarrow> error + column list"
  et_parse :: "bytes \<Rightarrow> error + elem"

section \<open>The format handlers\<close>

subsection \<open>\<open>replace_in_pdf_fitz\<close>\<close>

text \<open>
  The loop over the blocks of one page, with the page's calls so far and the running
  total; an exception of \<open>replace_text\<close> leaves the loop.
\<close>

fun pdf_blocks ::
  "re_version \<Rightarrow> string \<Rightarrow> string \<Rightarrow> bool \<Rightarrow> block list \<Rightarrow> page_op list \<times> nat \<Rightarrow> error + page_op list \<times> nat"
where
  "pdf_blocks v find' replace cs [] st = Inr st"
| "pdf_blocks v find' replace cs (b # bs) (done, total_count) =
     (if block_type b = 0 then
        (case replace_text v (btext b) find' replace cs of
           Inl e \<Rightarrow> Inl e
         | Inr (modified_text, count) \<Rightarrow>
             pdf_blocks v find' replace cs bs
               (if count > 0 then
                  done @ [AddRedactAnnot (x0 b, y0 b, x1 b, y1 b) (1, 1, 1),
                          ApplyRedactions,
                          InsertText (x0 b, y0 b) modified_text 11]
                else done,
                total_count + count))
      else pdf_blocks v find' replace cs bs (done, total_count))"

fun pdf_pages ::
  "re_version \<Rightarrow> string \<Rightarrow> string \<Rightarrow> bool \<Rightarrow> page list \<Rightarrow> nat \<Rightarrow> error + page list \<times> nat"
where
  "pdf_pages v find' replace cs [] total_count = Inr ([], total_count)"
| "pdf_pages v find' replace cs (p # ps) total_count =
     (case pdf_blocks v find' replace cs (blocks p) (ops p, total_count) of
        Inl e \<Rightarrow> Inl e
      | Inr (done, total_count') \<Rightarrow>
          (case pdf_pages v find' replace cs ps total_count' of
             Inl e \<Rightarrow> Inl e
           | Inr (ps', n) \<Rightarrow> Inr (p\<lparr>ops := done\<rparr> # ps', n)))"

definition replace_in_pdf_fitz ::
  "libs \<Rightarrow> upload \<Rightarrow> string \<Rightarrow> string \<Rightarrow> bool \<Rightarrow> error + page list \<times> nat"
where
  "replace_in_pdf_fitz L file find' replace case_sensitive =
     (case fitz_open L (remaining file) of
        Inl e \<Rightarrow> Inl e
      | Inr doc \<Rightarrow> pdf_pages (re_version L) find' replace case_sensitive doc 0)"

subsection \<open>\<open>replace_in_csv\<close>\<close>

text \<open>\<open>str(cell)\<close> after \<open>astype(str)\<close>.\<close>

fun str_cell :: "cell \<Rightarrow> string" where
  "str_cell (Str s) = s"
| "str_cell NaN = ''nan''"
| "str_cell (Other s) = s"

text \<open>The list comprehension: one pair per cell, or the first exception.\<close>

fun replace_cells ::
  "re_version \<Rightarrow> string \<Rightarrow> string \<Rightarrow> bool \<Rightarrow> cell list \<Rightarrow> error + (string \<times> nat) list"
where
  "replace_cells v find' replace cs [] = Inr []"
| "replace_cells v find' replace cs (c # rest) =
     (case replace_text v (str_cell c) find' replace cs of
        Inl e \<Rightarrow> Inl e
      | Inr pair \<Rightarrow>
          (case replace_cells v find' replace cs rest of
             Inl e \<Rightarrow> Inl e
           | Inr pairs \<Rightarrow> Inr (pair # pairs)))"

text \<open>
  \<open>df[col], col_count = zip(*pairs)\<close>: \<open>zip\<close> of no pair yields nothing, and unpacking
  nothing into two targets raises \<open>ValueError\<close>.
\<close>

definition unzip_pairs :: "(string \<times> nat) list \<Rightarrow> error + string list \<times> nat list" where
  "unzip_pairs pairs =
     (if pairs = [] then Inl ValueError else Inr (map fst pairs, map snd pairs))"

fun csv_columns ::
  "re_version \<Rightarrow> string \<Rightarrow> string \<Rightarrow> bool \<Rightarrow> column list \<Rightarrow> nat \<Rightarrow> error + column list \<times> nat"
where
  "csv_columns v find' replace cs [] count = Inr ([], count)"
| "csv_columns v find' replace cs (col # cols) count =
     (if dtype col = Object then
        (case replace_cells v find' replace cs (cells col) of
           Inl e \<Rightarrow> Inl e
         | Inr pairs \<Rightarrow>
             (case unzip_pairs pairs of
                Inl e \<Rightarrow> Inl e
              | Inr (texts, col_count) \<Rightarrow>
                  (case csv_columns v find' replace cs cols (count + sum_list col_count) of
                     Inl e \<Rightarrow> Inl e
                   | Inr (cols', n) \<Rightarrow> Inr (col\<lparr>cells := map Str texts\<rparr> # cols', n))))
      else
        (case csv_columns v find' replace cs cols count of
           Inl e \<Rightarrow> Inl e
         | Inr (cols', n) \<Rightarrow> Inr (col # cols', n)))"

definition replace_in_csv ::
  "libs \<Rightarrow> upload \<Rightarrow> string \<Rightarrow> string \<Rightarrow> bool \<Rightarrow> error + column list \<times> nat"
where
  "replace_in_csv L file find' replace case_sensitive =
     (case read_csv L (remaining file) of
        Inl e \<Rightarrow> Inl e
      | Inr df \<Rightarrow> csv_columns (re_version L) find' replace case_sensitive df 0)"

subsection \<open>\<open>replace_in_xml\<close>\<close>

text \<open>\<open>find in elem.text\<close>: Python's substring test, which compares exactly.\<close>

fun str_contains :: "string \<Rightarrow> string \<Rightarrow> bool" where
  "str_contains sub [] = (sub = [])"
| "str_contains sub (c # s) = (match_here True sub (c # s) \<or> str_contains sub s)"

text \<open>
  The \<open>if\<close> statement of \<open>replace_text_elem\<close>, on the element's text and the
  \<open>nonlocal count\<close>: \<open>elem.text\<close> is false when it is \<open>None\<close> or empty.
\<close>

definition replace_elem_text ::
  "re_version \<Rightarrow> string \<Rightarrow> string \<Rightarrow> bool \<Rightarrow> string option \<Rightarrow> nat \<Rightarrow> error + string option \<times> nat"
where
  "replace_elem_text v find' replace cs tx count =
     (case tx of
        None \<Rightarrow> Inr (tx, count)
      | Some s \<Rightarrow>
          if s \<noteq> [] \<and> str_contains find' s then
            (case replace_text v s find' replace cs of
               Inl e \<Rightarrow> Inl e
             | Inr (modified, n) \<Rightarrow> Inr (Some modified, count + n))
          else Inr (tx, count))"

text \<open>
  \<open>replace_text_elem\<close> with the count passed in and out, and its loop over the
  children.
\<close>

fun replace_text_elem ::
    "re_version \<Rightarrow> string \<Rightarrow> string \<Rightarrow> bool \<Rightarrow> elem \<Rightarrow> nat \<Rightarrow> error + elem \<times> nat"
  and replace_children ::
    "re_version \<Rightarrow> string \<Rightarrow> string \<Rightarrow> bool \<Rightarrow> elem list \<Rightarrow> nat \<Rightarrow> error + elem list \<times> nat"
where
  "replace_text_elem v find' replace cs (Element tg attrs tx tail ch) count =
     (case replace_elem_text v find' replace cs tx count of
        Inl e \<Rightarrow> Inl e
      | Inr (tx', count') \<Rightarrow>
          (case replace_children v find' replace cs ch count' of
             Inl e \<Rightarrow> Inl e
           | Inr (ch', n) \<Rightarrow> Inr (Element tg attrs tx' tail ch', n)))"
| "replace_children v find' replace cs [] count = Inr ([], count)"
| "replace_children v find' replace cs (child # rest) count =
     (case replace_text_elem v find' replace cs child count of
        Inl e \<Rightarrow> Inl e
      | Inr (child', count') \<Rightarrow>
          (case replace_children v find' replace cs rest count' of
             Inl e \<Rightarrow> Inl e
           | Inr (rest', n) \<Rightarrow> Inr (child' # rest', n)))"

definition replace_in_xml ::
  "libs \<Rightarrow> upload \<Rightarrow> string \<Rightarrow> string \<Rightarrow> bool \<Rightarrow> error + elem \<times> nat"
where
  "replace_in_xml L file find' replace case_sensitive =
     (case et_parse L (remaining file) of
        Inl e \<Rightarrow> Inl e
      | Inr tree \<Rightarrow> replace_text_elem (re_version L) find' replace case_sensitive tree 0)"


section \<open>Saving and the batch\<close>

subsection \<open>\<open>save_modified_file\<close>\<close>

text \<open>
  What a handler hands over to be saved, and the file that is written: the document as
  the library serialises it, or the raw bytes. \<open>shutil.copyfileobj\<close> copies the stream
  from its position on. \<open>None\<close>: no file is written; no call reaches it, since each call
  passes the content its file type names.
\<close>

datatype content =
  PdfDoc "page list" | DataFrame "column list" | XmlTree elem | Stream upload

datatype outfile =
  PdfFile "page list" | CsvFile "column list" | XmlFile elem | RawFile bytes

definition save_modified_file :: "content \<Rightarrow> string \<Rightarrow> outfile option" where
  "save_modified_file content file_type =
     (if file_type = ''pdf'' then
        (case content of PdfDoc doc \<Rightarrow> Some (PdfFile doc) | _ \<Rightarrow> None)
      else if file_type = ''csv'' then
        (case content of DataFrame df \<Rightarrow> Some (CsvFile df) | _ \<Rightarrow> None)
      else if file_type = ''xml'' then
        (case content of XmlTree tree \<Rightarrow> Some (XmlFile tree) | _ \<Rightarrow> None)
      else if file_type = ''xpt'' then
        (case content of Stream file \<Rightarrow> Some (RawFile (remaining file)) | _ \<Rightarrow> None)
      else None)"

subsection \<open>One file\<close>

text \<open>\<open>filename.split(".")[-1].lower()\<close>.\<close>

definition file_ext :: "string \<Rightarrow> string" where
  "file_ext filename =
     map lower_char (rev (takeWhile (\<lambda>c. c \<noteq> CHR ''.'') (rev filename)))"

text \<open>
  The file at \<open>output_path\<close> with the count, as \<open>zipf.write\<close> finds it after the save.
\<close>

definition saved :: "outfile option \<Rightarrow> nat \<Rightarrow> error + (outfile \<times> nat) option" where
  "saved written count =
     (case written of None \<Rightarrow> Inl FileNotFoundError | Some out \<Rightarrow> Inr (Some (out, count)))"

text \<open>
  The body of the \<open>try\<close> for one file, up to the two statements that record a success:
  the file to archive and its count, \<open>None\<close> for the \<open>continue\<close> of an unsupported type,
  or the exception.
\<close>

definition process_file ::
  "libs \<Rightarrow> upload \<Rightarrow> string \<Rightarrow> string \<Rightarrow> bool \<Rightarrow> error + (outfile \<times> nat) option"
where
  "process_file L file find_word replace_word case_sensitive =
     (let ext = file_ext (name file) in
      if ext = ''pdf'' then
        (case replace_in_pdf_fitz L file find_word replace_word case_sensitive of
           Inl e \<Rightarrow> Inl e
         | Inr (modified_doc, count) \<Rightarrow>
             saved (save_modified_file (PdfDoc modified_doc) ''pdf'') count)
      else if ext = ''csv'' then
        (case replace_in_csv L file find_word replace_word case_sensitive of
           Inl e \<Rightarrow> Inl e
         | Inr (modified, count) \<Rightarrow>
             saved (save_modified_file (DataFrame modified) ''csv'') count)
      else if ext = ''xml'' then
        (case replace_in_xml L file find_word replace_word case_sensitive of
           Inl e \<Rightarrow> Inl e
         | Inr (modified, count) \<Rightarrow>
             saved (save_modified_file (XmlTree modified) ''xml'') count)
      else if ext = ''xpt'' then
        saved (save_modified_file (Stream (seek0 file)) ''xpt'') 0
      else Inr None)"

subsection \<open>The loop and the page\<close>

text \<open>
  What the page shows, in order. The summary dictionary \<open>replacements_summary\<close> keeps
  its keys in insertion order and overwrites the value of a key it has
  (\<open>AList.update\<close>); the archive is the list of the members written, under their names.
\<close>

datatype message =
  WarnNoFiles
| WarnNoWord
| WarnUnsupported string
| ErrorProcessing string error
| DownloadButton "(string \<times> outfile) list"
| SummaryHeader
| SummaryLine string nat
| AllDone

record state =
  summary :: "(string \<times> nat) list"
  archive :: "(string \<times> outfile) list"
  shown :: "message list"

text \<open>
  What the loop does with the result of the \<open>try\<close> body for the file \<open>filename\<close>: the
  warning and \<open>continue\<close>, the two statements of a success, or the \<open>except\<close> clause.
\<close>

definition record_outcome ::
  "state \<Rightarrow> string \<Rightarrow> error + (outfile \<times> nat) option \<Rightarrow> state"
where
  "record_outcome st filename r =
     (case r of
        Inr None \<Rightarrow> st\<lparr>shown := shown st @ [WarnUnsupported filename]\<rparr>
      | Inr (Some (out, count)) \<Rightarrow>
          st\<lparr>summary := AList.update filename count (summary st),
             archive := archive st @ [(filename, out)]\<rparr>
      | Inl e \<Rightarrow> st\<lparr>shown := shown st @ [ErrorProcessing filename e]\<rparr>)"

fun process_files ::
  "libs \<Rightarrow> upload list \<Rightarrow> string \<Rightarrow> string \<Rightarrow> bool \<Rightarrow> state \<Rightarrow> state"
where
  "process_files L [] find_word replace_word cs st = st"
| "process_files L (file # files) find_word replace_word cs st =
     process_files L files find_word replace_word cs
       (record_outcome st (name file) (process_file L file find_word replace_word cs))"

text \<open>
  The button \<open>Start Replacement\<close>: the script runs anew on every click, so the summary
  starts empty.
\<close>

definition start_replacement ::
  "libs \<Rightarrow> upload list \<Rightarrow> string \<Rightarrow> string \<Rightarrow> bool \<Rightarrow> message list"
where
  "start_replacement L uploaded_files find_word replace_word case_sensitive =
     (if uploaded_files = [] then [WarnNoFiles]
      else if find_word = [] then [WarnNoWord]
      else
        (let st = process_files L uploaded_files find_word replace_word case_sensitive
                    \<lparr>summary = [], archive = [], shown = []\<rparr>
         in shown st @ [DownloadButton (archive st), SummaryHeader] @
            map (\<lambda>(file, count). SummaryLine file count) (summary st) @ [AllDone]))"

section \<open>Notions of the specification\<close>

subsection \<open>Occurrences\<close>

text \<open>
  \<open>F\<close> occurs in \<open>T\<close> at position \<open>i\<close>: the \<open>length F\<close> characters of \<open>T\<close> from \<open>i\<close> on
  are those of \<open>F\<close>, compared under the case sensitivity.
\<close>

definition occurs_at :: "bool \<Rightarrow> string \<Rightarrow> string \<Rightarrow> nat \<Rightarrow> bool" where
  "occurs_at cs F T i = list_all2 (char_eq cs) F (take (length F) (drop i T))"

text \<open>
  The non-overlapping occurrences taken leftmost first: \<open>ps\<close> lists positions of
  occurrences, in ascending order and at least \<open>length F\<close> apart, and every occurrence
  there is starts inside one of them (it is one of them, or it overlaps one that starts
  before it).
\<close>

definition leftmost_first :: "bool \<Rightarrow> string \<Rightarrow> string \<Rightarrow> nat list \<Rightarrow> bool" where
  "leftmost_first cs F T ps =
     ((\<forall>p \<in> set ps. occurs_at cs F T p) \<and>
      sorted_wrt (\<lambda>p q. p + length F \<le> q) ps \<and>
      (\<forall>i. occurs_at cs F T i \<longrightarrow> (\<exists>p \<in> set ps. p \<le> i \<and> i < p + length F)))"

text \<open>
  \<open>T\<close> with the \<open>n\<close> characters at each position of \<open>ps\<close> replaced by what \<open>e\<close> makes of
  them; the positions are taken from the right, so that a replacement does not move the
  ones still to be made.
\<close>

definition substitute_at :: "(string \<Rightarrow> string) \<Rightarrow> nat \<Rightarrow> nat list \<Rightarrow> string \<Rightarrow> string" where
  "substitute_at e n ps T =
     foldr (\<lambda>p t. take p t @ e (take n (drop p t)) @ drop (p + n) t) ps T"

subsection \<open>Outcomes of a batch\<close>

text \<open>
  The one line of the page that tells the outcome of a file: its count in the summary,
  its error, or that its type is not supported.
\<close>

definition outcome_of :: "libs \<Rightarrow> string \<Rightarrow> string \<Rightarrow> bool \<Rightarrow> upload \<Rightarrow> message" where
  "outcome_of L find_word replace_word cs file =
     (case process_file L file find_word replace_word cs of
        Inl e \<Rightarrow> ErrorProcessing (name file) e
      | Inr None \<Rightarrow> WarnUnsupported (name file)
      | Inr (Some (out, count)) \<Rightarrow> SummaryLine (name file) count)"

fun is_summary :: "message \<Rightarrow> bool" where
  "is_summary (SummaryLine f n) = True"
| "is_summary m = False"

fun is_outcome :: "message \<Rightarrow> bool" where
  "is_outcome (SummaryLine f n) = True"
| "is_outcome (ErrorProcessing f e) = True"
| "is_outcome (WarnUnsupported f) = True"
| "is_outcome m = False"

text \<open>The members a batch archives: one per file that succeeds, in order.\<close>

definition archived :: "libs \<Rightarrow> string \<Rightarrow> string \<Rightarrow> bool \<Rightarrow> upload list \<Rightarrow> (string \<times> outfile) list" where
  "archived L find_word replace_word cs files =
     concat (map (\<lambda>file.
       case process_file L file find_word replace_word cs of
         Inr (Some (out, count)) \<Rightarrow> [(name file, out)]
       | _ \<Rightarrow> []) files)"

subsection \<open>Columns of a data frame\<close>

text \<open>
  What the CSV handler makes of a column: every cell of an object column becomes the
  string the matcher returns for the cell's text; another column stays as it is.
\<close>

definition column_result :: "re_version \<Rightarrow> string \<Rightarrow> string \<Rightarrow> bool \<Rightarrow> column \<Rightarrow> column \<Rightarrow> bool" where
  "column_result v F R cs col col' =
     (if dtype col = Object then
        header col' = header col \<and> dtype col' = Object \<and>
        list_all2 (\<lambda>c c'. \<exists>m k. replace_text v (str_cell c) F R cs = Inr (m, k) \<and> c' = Str m)
          (cells col) (cells col')
      else col' = col)"

subsection \<open>Parts of an XML tree\<close>



subsection \<open>Rectangles of a page\<close>










section \<open>Example inputs\<close>

text \<open>
  A reader that rejects every file, a set of libraries made of a CSV reader and an XML
  reader (with no readable PDF, and the current \<open>re\<close>), and a freshly uploaded file.
\<close>

definition no_reader :: "bytes \<Rightarrow> error + 'a" where
  "no_reader b = Inl (ParseError ''unreadable'')"

definition example_libs ::
  "(bytes \<Rightarrow> error + column list) \<Rightarrow> (bytes \<Rightarrow> error + elem) \<Rightarrow> libs"
where
  "example_libs csv xml =
     \<lparr>re_version = Re_from_3_12, fitz_open = no_reader, read_csv = csv, et_parse = xml\<rparr>"

definition upload_of :: "string \<Rightarrow> bytes \<Rightarrow> upload" where
  "upload_of filename bs = \<lparr>name = filename, data = bs, pos = 0\<rparr>"

section \<open>The search, position by position\<close>

text \<open>
  The positions at which \<open>subn_scan\<close> replaces, read off its search.
\<close>

function scan_positions :: "bool \<Rightarrow> string \<Rightarrow> string \<Rightarrow> nat list" where
  "scan_positions cs pat [] = []"
| "scan_positions cs pat (c # t) =
     (if pat \<noteq> [] \<and> match_here cs pat (c # t)
      then 0 # map (\<lambda>p. p + length pat) (scan_positions cs pat (drop (length pat) (c # t)))
      else map Suc (scan_positions cs pat t))"
  by pat_completeness auto
termination
  by (relation "measure (\<lambda>(cs, pat, t). length t)") auto

declare scan_positions.simps(2) [simp del]
declare subn_scan.simps(2) [simp del]

section \<open>Properties of the pattern matcher\<close>

subsection \<open>Occurrences and the search\<close>

lemma match_here_iff: "match_here cs F T \<longleftrightarrow> list_all2 (char_eq cs) F (take (length F) T)"
  by (induction cs F T rule: match_here.induct) auto

lemma occurs_at_0: "occurs_at cs F T 0 = match_here cs F T"
  by (simp add: occurs_at_def match_here_iff)

lemma occurs_at_Suc: "occurs_at cs F (c # t) (Suc i) = occurs_at cs F t i"
  by (simp add: occurs_at_def)

lemma occurs_at_add: "occurs_at cs F T (i + k) = occurs_at cs F (drop k T) i"
  by (simp add: occurs_at_def add.commute)

lemma occurs_at_bound: "F \<noteq> [] \<Longrightarrow> occurs_at cs F T i \<Longrightarrow> i + length F \<le> length T"
  unfolding occurs_at_def
  by (drule list_all2_lengthD) (cases "i < length T"; simp)

lemma substitute_at_shift:
  "length xs = k \<Longrightarrow>
   substitute_at e n (map (\<lambda>p. p + k) ps) (xs @ ys) = xs @ substitute_at e n ps ys"
  by (induction ps) (simp_all add: substitute_at_def)

lemma substitute_at_Suc:
  "substitute_at e n (map Suc ps) (c # t) = c # substitute_at e n ps t"
  using substitute_at_shift [of "[c]" 1 e n ps t] by simp

lemma substitute_at_0:
  "n \<le> length T \<Longrightarrow>
   substitute_at e n (0 # map (\<lambda>p. p + n) ps) T =
     e (take n T) @ substitute_at e n ps (drop n T)"
proof -
  assume n: "n \<le> length T"
  have "substitute_at e n (map (\<lambda>p. p + n) ps) (take n T @ drop n T) =
        take n T @ substitute_at e n ps (drop n T)"
    by (rule substitute_at_shift) (simp add: n)
  then have *: "substitute_at e n (map (\<lambda>p. p + n) ps) T =
        take n T @ substitute_at e n ps (drop n T)" by simp
  have "substitute_at e n (0 # map (\<lambda>p. p + n) ps) T =
        e (take n (substitute_at e n (map (\<lambda>p. p + n) ps) T)) @
        drop n (substitute_at e n (map (\<lambda>p. p + n) ps) T)"
    by (simp add: substitute_at_def)
  with * n show ?thesis by simp
qed

lemma match_here_length: "match_here cs F T \<Longrightarrow> length F \<le> length T"
  by (induction cs F T rule: match_here.induct) auto

lemma subn_scan_positions:
  "subn_scan cs F tpl T =
     (substitute_at (expand_template tpl) (length F) (scan_positions cs F T) T,
      length (scan_positions cs F T))"
proof (induction cs F tpl T rule: subn_scan.induct)
  case (1 cs pat tpl)
  show ?case by (simp add: substitute_at_def)
next
  case (2 cs pat tpl c t)
  show ?case
  proof (cases "pat \<noteq> [] \<and> match_here cs pat (c # t)")
    case True
    then have len: "length pat \<le> length (c # t)" by (blast dest: match_here_length)
    have sp: "scan_positions cs pat (c # t) =
        0 # map (\<lambda>p. p + length pat) (scan_positions cs pat (drop (length pat) (c # t)))"
      using True by (subst scan_positions.simps) simp
    have sn: "subn_scan cs pat tpl (c # t) =
        (let (out, n) = subn_scan cs pat tpl (drop (length pat) (c # t))
         in (expand_template tpl (take (length pat) (c # t)) @ out, Suc n))"
      using True by (subst subn_scan.simps) simp
    show ?thesis
      unfolding sn sp 2(1)[OF True] substitute_at_0 [OF len] by simp
  next
    case False
    have sp: "scan_positions cs pat (c # t) = map Suc (scan_positions cs pat t)"
      by (subst scan_positions.simps) (simp only: False if_False)
    have sn: "subn_scan cs pat tpl (c # t) =
        (let (out, n) = subn_scan cs pat tpl t in (c # out, n))"
      by (subst subn_scan.simps) (simp only: False if_False)
    show ?thesis
      unfolding sn sp 2(2)[OF False] substitute_at_Suc by simp
  qed
qed


lemma leftmost_first_scan:
  "F \<noteq> [] \<Longrightarrow> leftmost_first cs F T (scan_positions cs F T)"
proof (induction cs F T rule: scan_positions.induct)
  case (1 cs pat)
  have "\<not> occurs_at cs pat [] i" for i
    using occurs_at_bound [OF 1, of cs "[]" i] 1 by auto
  then show ?case by (simp add: leftmost_first_def)
next
  case (2 cs pat c t)
  let ?n = "length pat"
  show ?case
  proof (cases "pat \<noteq> [] \<and> match_here cs pat (c # t)")
    case True
    let ?ps = "scan_positions cs pat (drop ?n (c # t))"
    have sp: "scan_positions cs pat (c # t) = 0 # map (\<lambda>p. p + ?n) ?ps"
      using True by (subst scan_positions.simps) simp
    from 2(1) [OF True] True have IH: "leftmost_first cs pat (drop ?n (c # t)) ?ps" by simp
    have occ: "\<forall>p \<in> set (0 # map (\<lambda>p. p + ?n) ?ps). occurs_at cs pat (c # t) p"
      using True IH by (auto simp: leftmost_first_def occurs_at_0 occurs_at_add)
    have srt: "sorted_wrt (\<lambda>p q. p + ?n \<le> q) (0 # map (\<lambda>p. p + ?n) ?ps)"
      using IH by (simp add: leftmost_first_def sorted_wrt_map)
    have cov: "\<exists>p \<in> set (0 # map (\<lambda>p. p + ?n) ?ps). p \<le> i \<and> i < p + ?n"
      if i: "occurs_at cs pat (c # t) i" for i
    proof (cases "i < ?n")
      case True
      then show ?thesis by simp
    next
      case False
      then have "occurs_at cs pat (drop ?n (c # t)) (i - ?n)"
        using i occurs_at_add [of cs pat "c # t" "i - ?n" ?n] by simp
      with IH obtain p where "p \<in> set ?ps" "p \<le> i - ?n" "i - ?n < p + ?n"
        unfolding leftmost_first_def by blast
      with False have "p + ?n \<in> set (map (\<lambda>p. p + ?n) ?ps)" "p + ?n \<le> i" "i < p + ?n + ?n"
        by auto
      then show ?thesis by (meson list.set_intros(2))
    qed
    show ?thesis
      unfolding sp leftmost_first_def using occ srt cov by blast
  next
    case False
    let ?ps = "scan_positions cs pat t"
    have sp: "scan_positions cs pat (c # t) = map Suc ?ps"
      by (subst scan_positions.simps) (simp only: False if_False)
    from 2(2) [OF False] 2(3) have IH: "leftmost_first cs pat t ?ps" by simp
    from False 2(3) have no0: "\<not> occurs_at cs pat (c # t) 0"
      by (simp add: occurs_at_0)
    have occ: "\<forall>p \<in> set (map Suc ?ps). occurs_at cs pat (c # t) p"
      using IH by (auto simp: leftmost_first_def occurs_at_Suc)
    have srt: "sorted_wrt (\<lambda>p q. p + ?n \<le> q) (map Suc ?ps)"
      using IH by (simp add: leftmost_first_def sorted_wrt_map)
    have cov: "\<exists>p \<in> set (map Suc ?ps). p \<le> i \<and> i < p + ?n"
      if i: "occurs_at cs pat (c # t) i" for i
    proof (cases i)
      case 0
      with i no0 show ?thesis by simp
    next
      case (Suc j)
      with i have "occurs_at cs pat t j" by (simp add: occurs_at_Suc)
      with IH obtain p where "p \<in> set ?ps" "p \<le> j" "j < p + ?n"
        unfolding leftmost_first_def by blast
      with Suc show ?thesis by auto
    qed
    show ?thesis
      unfolding sp leftmost_first_def using occ srt cov by blast
  qed
qed


lemma sorted_wrt_pair:
  "sorted_wrt P xs \<Longrightarrow> a \<in> set xs \<Longrightarrow> b \<in> set xs \<Longrightarrow> a \<noteq> b \<Longrightarrow> P a b \<or> P b a"
  by (induction xs) auto

lemma leftmost_first_subset:
  assumes F: "F \<noteq> []"
  shows "leftmost_first cs F T ps \<Longrightarrow> leftmost_first cs F T qs \<Longrightarrow>
         x \<in> set ps \<Longrightarrow> x \<in> set qs"
proof (induction x arbitrary: ps qs rule: less_induct)
  case (less x)
  from less.prems have "occurs_at cs F T x" by (simp add: leftmost_first_def)
  with less.prems(2) obtain q where q: "q \<in> set qs" "q \<le> x" "x < q + length F"
    unfolding leftmost_first_def by blast
  show ?case
  proof (cases "q = x")
    case True
    with q show ?thesis by simp
  next
    case False
    with q have "q < x" by simp
    from less.IH [OF this less.prems(2) less.prems(1) q(1)] have "q \<in> set ps" .
    moreover from less.prems(1) have "sorted_wrt (\<lambda>p q. p + length F \<le> q) ps"
      by (simp add: leftmost_first_def)
    ultimately have "q + length F \<le> x \<or> x + length F \<le> q"
      using less.prems(3) False sorted_wrt_pair by fastforce
    with q \<open>q < x\<close> show ?thesis by simp
  qed
qed

lemma leftmost_first_unique:
  assumes F: "F \<noteq> []"
    and ps: "leftmost_first cs F T ps" and qs: "leftmost_first cs F T qs"
  shows "ps = qs"
proof -
  have strict: "sorted_wrt (<) xs" if "leftmost_first cs F T xs" for xs
  proof -
    from that have "sorted_wrt (\<lambda>p q. p + length F \<le> q) xs"
      by (simp add: leftmost_first_def)
    moreover have "p + length F \<le> q \<Longrightarrow> p < q" for p q using F by (cases F) auto
    ultimately show ?thesis by (rule sorted_wrt_mono_rel [rotated]) blast
  qed
  have "set ps = set qs"
    using leftmost_first_subset [OF F ps qs] leftmost_first_subset [OF F qs ps] by blast
  with strict [OF ps] strict [OF qs] show ?thesis
    by (simp add: strict_sorted_iff sorted_distinct_set_unique)
qed

lemma leftmost_first_maximal:
  assumes F: "F \<noteq> []" and ps: "leftmost_first cs F T ps"
    and occ: "\<forall>s \<in> S. occurs_at cs F T s"
    and apart: "\<forall>s \<in> S. \<forall>s' \<in> S. s < s' \<longrightarrow> s + length F \<le> s'"
  shows "card S \<le> length ps"
proof -
  from ps occ have "\<forall>s \<in> S. \<exists>p. p \<in> set ps \<and> p \<le> s \<and> s < p + length F"
    unfolding leftmost_first_def by blast
  then obtain f where f: "\<forall>s \<in> S. f s \<in> set ps \<and> f s \<le> s \<and> s < f s + length F"
    by (rule bchoice [THEN exE])
  have "inj_on f S"
  proof (rule inj_onI)
    fix s s' assume s: "s \<in> S" "s' \<in> S" and eq: "f s = f s'"
    show "s = s'"
    proof (rule ccontr)
      assume "s \<noteq> s'"
      then consider "s < s'" | "s' < s" by linarith
      then show False
      proof cases
        case 1
        with apart s have "s + length F \<le> s'" by blast
        moreover from f s have "f s \<le> s" "s' < f s' + length F" by auto
        ultimately show False using eq by simp
      next
        case 2
        with apart s have "s' + length F \<le> s" by blast
        moreover from f s have "f s' \<le> s'" "s < f s + length F" by auto
        ultimately show False using eq by simp
      qed
    qed
  qed
  moreover from f have "f ` S \<subseteq> set ps" by blast
  ultimately have "card S \<le> card (set ps)"
    by (rule card_inj_on_le) simp
  also have "\<dots> \<le> length ps" by (rule card_length)
  finally show ?thesis .
qed


lemma parse_template_literal:
  "backslash \<notin> set R \<Longrightarrow> parse_template v R = Inr (map Lit R)"
proof (induction R)
  case (Cons c R)
  then have "c \<noteq> backslash" "parse_template v R = Inr (map Lit R)" by auto
  then show ?case by simp
qed simp

lemma expand_template_literal: "expand_template (map Lit R) m = R"
  by (induction R) simp_all

lemma char_eq_lower: "list_all2 (char_eq cs) F m \<Longrightarrow> map lower_char F = map lower_char m"
  by (induction rule: list_all2_induct) (auto simp: char_eq_def split: if_splits)

lemma char_eq_exact: "list_all2 (char_eq True) F m \<Longrightarrow> F = m"
  by (induction rule: list_all2_induct) (auto simp: char_eq_def)

lemma subn_scan_identity:
  "map lower_char (fst (subn_scan cs F (map Lit F) T)) = map lower_char T \<and>
   (cs \<longrightarrow> fst (subn_scan cs F (map Lit F) T) = T)"
proof (induction cs F "map Lit F" T rule: subn_scan.induct)
  case (1 cs pat)
  show ?case by simp
next
  case (2 cs pat c t)
  show ?case
  proof (cases "pat \<noteq> [] \<and> match_here cs pat (c # t)")
    case True
    let ?m = "take (length pat) (c # t)" and ?r = "drop (length pat) (c # t)"
    have sn: "subn_scan cs pat (map Lit pat) (c # t) =
        (let (out, n) = subn_scan cs pat (map Lit pat) ?r
         in (expand_template (map Lit pat) ?m @ out, Suc n))"
      using True by (subst subn_scan.simps) simp
    then have out: "fst (subn_scan cs pat (map Lit pat) (c # t)) =
        pat @ fst (subn_scan cs pat (map Lit pat) ?r)"
      by (simp add: expand_template_literal split: prod.splits)
    from True have m: "list_all2 (char_eq cs) pat ?m" by (simp only: match_here_iff)
    have split: "c # t = ?m @ ?r" by (simp only: append_take_drop_id)
    from 2(1) [OF True] have IH:
      "map lower_char (fst (subn_scan cs pat (map Lit pat) ?r)) = map lower_char ?r"
      "cs \<longrightarrow> fst (subn_scan cs pat (map Lit pat) ?r) = ?r" by simp_all
    have "map lower_char (fst (subn_scan cs pat (map Lit pat) (c # t))) =
          map lower_char ?m @ map lower_char ?r"
      unfolding out using IH(1) char_eq_lower [OF m] by simp
    also have "\<dots> = map lower_char (c # t)"
      by (simp only: map_append [symmetric] append_take_drop_id)
    finally have low: "map lower_char (fst (subn_scan cs pat (map Lit pat) (c # t))) =
          map lower_char (c # t)" .
    have "fst (subn_scan cs pat (map Lit pat) (c # t)) = c # t" if cs
    proof -
      from m that have "pat = ?m" by (simp add: char_eq_exact)
      with IH(2) that have "fst (subn_scan cs pat (map Lit pat) (c # t)) = ?m @ ?r"
        unfolding out by simp
      then show ?thesis by (simp only: append_take_drop_id)
    qed
    with low show ?thesis by blast
  next
    case False
    have sn: "subn_scan cs pat (map Lit pat) (c # t) =
        (let (out, n) = subn_scan cs pat (map Lit pat) t in (c # out, n))"
      by (subst subn_scan.simps) (simp only: False if_False)
    then have "fst (subn_scan cs pat (map Lit pat) (c # t)) =
        c # fst (subn_scan cs pat (map Lit pat) t)"
      by (simp split: prod.splits)
    with 2(2) [OF False] show ?thesis by (cases cs) simp_all
  qed
qed


subsection \<open>The search is global, leftmost first\<close>

text \<open>
  The search half of the matcher's contract. For every text \<open>T\<close> and non-empty find-term
  \<open>F\<close> there is exactly one list \<open>ps\<close> of non-overlapping occurrences of \<open>F\<close> in \<open>T\<close>
  taken leftmost first, and no set of pairwise non-overlapping occurrences has more
  members. When the replacement is a template \<open>re\<close> accepts, the count is the length of
  \<open>ps\<close> and the text is \<open>T\<close> with the occurrences at \<open>ps\<close> replaced by the expansion of
  the template; a replacement without a backslash is put in as it is.
\<close>

theorem replace_text_global_substitute:
  assumes "F \<noteq> []"
  shows "\<exists>ps. leftmost_first cs F T ps \<and>
           (\<forall>qs. leftmost_first cs F T qs \<longrightarrow> qs = ps) \<and>
           (\<forall>S. (\<forall>s \<in> S. occurs_at cs F T s) \<and>
                (\<forall>s \<in> S. \<forall>s' \<in> S. s < s' \<longrightarrow> s + length F \<le> s') \<longrightarrow>
                card S \<le> length ps) \<and>
           replace_text v T F R cs =
             (case parse_template v R of
                Inl e \<Rightarrow> Inl e
              | Inr tpl \<Rightarrow>
                  Inr (substitute_at (expand_template tpl) (length F) ps T, length ps)) \<and>
           (backslash \<notin> set R \<longrightarrow>
              replace_text v T F R cs =
                Inr (substitute_at (\<lambda>m. R) (length F) ps T, length ps))"
proof -
  let ?ps = "scan_positions cs F T"
  have lf: "leftmost_first cs F T ?ps" by (rule leftmost_first_scan [OF assms])
  have uniq: "\<forall>qs. leftmost_first cs F T qs \<longrightarrow> qs = ?ps"
    using leftmost_first_unique [OF assms _ lf] by blast
  have maxi: "\<forall>S. (\<forall>s \<in> S. occurs_at cs F T s) \<and>
                (\<forall>s \<in> S. \<forall>s' \<in> S. s < s' \<longrightarrow> s + length F \<le> s') \<longrightarrow>
                card S \<le> length ?ps"
    using leftmost_first_maximal [OF assms lf] by blast
  have res: "replace_text v T F R cs =
             (case parse_template v R of
                Inl e \<Rightarrow> Inl e
              | Inr tpl \<Rightarrow>
                  Inr (substitute_at (expand_template tpl) (length F) ?ps T, length ?ps))"
    using assms by (simp add: replace_text_def subn_def subn_scan_positions split: sum.splits)
  have lit: "replace_text v T F R cs =
                Inr (substitute_at (\<lambda>m. R) (length F) ?ps T, length ?ps)"
    if "backslash \<notin> set R"
  proof -
    have "expand_template (map Lit R) = (\<lambda>m. R)"
      by (rule ext) (rule expand_template_literal)
    with res parse_template_literal [OF that] show ?thesis by simp
  qed
  from lf uniq maxi res lit show ?thesis by blast
qed

subsection \<open>A backslash in the replacement\<close>

text \<open>
  Claim C1 says that for every text and non-empty find-term the matcher returns the
  count of the occurrences and the text with all of them replaced, a literal substitute.
  The find-term is escaped, the replacement is not: a replacement that ends in a
  backslash makes \<open>replace_text\<close> raise instead of returning, and the replacement
  \<open>C:\new\<close> puts a line feed where the claim has a backslash and an \<open>n\<close>, under either
  version of \<open>re\<close>.
\<close>

theorem replace_text_backslash_replacement:
  "replace_text v ''abc'' ''b'' [CHR 0x5C] True = Inl ReError \<and>
   replace_text v ''abc'' ''b'' (''C:'' @ [CHR 0x5C] @ ''new'') True =
     Inr (''aC:'' @ [CHR 0x0A] @ ''ewc'', 1)"
  by (cases v; code_simp)

subsection \<open>Replacing a term by itself\<close>

text \<open>
  Claim C3, as amended. For every text \<open>T\<close> and non-empty find-term \<open>F\<close> without a
  backslash, replacing \<open>F\<close> by \<open>F\<close> reports the number of non-overlapping occurrences of
  \<open>F\<close> in \<open>T\<close> under the case sensitivity; when matching is case-sensitive the text
  returned is \<open>T\<close>, and when it is not, the text returned is \<open>T\<close> up to the case of its
  letters (each occurrence takes the spelling of \<open>F\<close>).
\<close>

theorem identity_replacement_counts:
  assumes "F \<noteq> []" and "backslash \<notin> set F"
  shows "\<exists>ps T'. leftmost_first cs F T ps \<and>
           replace_text v T F F cs = Inr (T', length ps) \<and>
           map lower_char T' = map lower_char T \<and>
           (cs \<longrightarrow> T' = T)"
proof -
  let ?ps = "scan_positions cs F T" and ?T' = "fst (subn_scan cs F (map Lit F) T)"
  have "replace_text v T F F cs = Inr (subn_scan cs F (map Lit F) T)"
    using assms by (simp add: replace_text_def subn_def parse_template_literal)
  then have "replace_text v T F F cs = Inr (?T', length ?ps)"
    by (simp add: subn_scan_positions)
  with leftmost_first_scan [OF assms(1), of cs T] subn_scan_identity [of cs F T]
  show ?thesis by blast
qed

theorem identity_replacement_counts_witness:
  "\<exists>ps T'. leftmost_first True ''ab'' ''abcab'' ps \<and>
     replace_text Re_from_3_12 ''abcab'' ''ab'' ''ab'' True = Inr (T', length ps) \<and>
     T' = ''abcab''"
proof -
  have "''ab'' \<noteq> []" and "backslash \<notin> set ''ab''" by (simp_all add: backslash_def)
  from identity_replacement_counts [OF this, of True "''abcab''" Re_from_3_12]
  show ?thesis by auto
qed

text \<open>
  Claim C3 as stated fails when matching is not case-sensitive: replacing \<open>apple\<close> by
  itself in \<open>Apple\<close> changes the text.
\<close>

theorem identity_replacement_changes_case:
  "replace_text Re_from_3_12 ''Apple'' ''apple'' ''apple'' False = Inr (''apple'', 1) \<and>
   ''apple'' \<noteq> ''Apple''"
  by code_simp

section \<open>Properties of the CSV handler\<close>

lemma subn_scan_zero: "subn_scan cs F tpl T = (m, 0) \<Longrightarrow> m = T"
proof (induction cs F tpl T arbitrary: m rule: subn_scan.induct)
  case (1 cs pat tpl)
  then show ?case by simp
next
  case (2 cs pat tpl c t)
  show ?case
  proof (cases "pat \<noteq> [] \<and> match_here cs pat (c # t)")
    case True
    then have "snd (subn_scan cs pat tpl (c # t)) \<noteq> 0"
      by (subst subn_scan.simps) (simp split: prod.splits)
    with 2(3) show ?thesis by simp
  next
    case False
    have sn: "subn_scan cs pat tpl (c # t) =
        (let (out, n) = subn_scan cs pat tpl t in (c # out, n))"
      by (subst subn_scan.simps) (simp only: False if_False)
    obtain out n where on: "subn_scan cs pat tpl t = (out, n)" by force
    with sn 2(3) have "m = c # out" "n = 0" by simp_all
    with 2(2) [OF False] on show ?thesis by simp
  qed
qed

lemma replace_text_zero: "replace_text v t F R cs = Inr (m, 0) \<Longrightarrow> m = t"
  by (auto simp: replace_text_def subn_def subn_empty_def split: sum.splits if_splits
      dest: subn_scan_zero)

lemma replace_cells_all2:
  "replace_cells v F R cs xs = Inr pairs \<Longrightarrow>
   list_all2 (\<lambda>c p. replace_text v (str_cell c) F R cs = Inr p) xs pairs"
proof (induction xs arbitrary: pairs)
  case Nil
  then show ?case by simp
next
  case (Cons c xs)
  then show ?case by (auto split: sum.splits)
qed

lemma csv_columns_result:
  "csv_columns v F R cs cols n = Inr (cols', n') \<Longrightarrow>
   list_all2 (column_result v F R cs) cols cols'"
proof (induction cols arbitrary: n cols' n')
  case Nil
  then show ?case by simp
next
  case (Cons col cols)
  show ?case
  proof (cases "dtype col = Object")
    case True
    with Cons.prems obtain pairs rest where
      p: "replace_cells v F R cs (cells col) = Inr pairs" and
      r: "csv_columns v F R cs cols (n + sum_list (map snd pairs)) = Inr (rest, n')" and
      c: "cols' = col\<lparr>cells := map Str (map fst pairs)\<rparr> # rest"
      by (auto simp: unzip_pairs_def split: sum.splits prod.splits if_splits)
    from replace_cells_all2 [OF p]
    have "list_all2 (\<lambda>c c'. \<exists>m k. replace_text v (str_cell c) F R cs = Inr (m, k) \<and> c' = Str m)
            (cells col) (map Str (map fst pairs))"
      by (simp add: list_all2_conv_all_nth) (metis prod.collapse)
    with True have "column_result v F R cs col (col\<lparr>cells := map Str (map fst pairs)\<rparr>)"
      by (simp add: column_result_def)
    with Cons.IH [OF r] c show ?thesis by simp
  next
    case False
    with Cons.prems obtain rest where
      r: "csv_columns v F R cs cols n = Inr (rest, n')" and c: "cols' = col # rest"
      by (auto split: sum.splits prod.splits)
    from False have "column_result v F R cs col col" by (simp add: column_result_def)
    with Cons.IH [OF r] c show ?thesis by simp
  qed
qed

subsection \<open>Every cell of an object column becomes a string\<close>

text \<open>
  Claim C10. When the CSV handler returns, every cell of every object column holds the
  string the matcher returns for the cell's string representation, whatever the number
  of matches: a cell with no occurrence of the find-term becomes its string
  representation, so a missing value becomes the string \<open>nan\<close>.
\<close>

theorem csv_object_cells_coerced:
  assumes "read_csv L (remaining file) = Inr df"
    and "replace_in_csv L file F R cs = Inr (df', n)"
    and "i < length df" and "dtype (df ! i) = Object"
    and "j < length (cells (df ! i))"
  shows "\<exists>m k. replace_text (re_version L) (str_cell (cells (df ! i) ! j)) F R cs = Inr (m, k) \<and>
           cells (df' ! i) ! j = Str m \<and>
           (k = 0 \<longrightarrow> m = str_cell (cells (df ! i) ! j)) \<and>
           (k = 0 \<and> cells (df ! i) ! j = NaN \<longrightarrow> cells (df' ! i) ! j = Str ''nan'')"
proof -
  from assms(1,2) have "csv_columns (re_version L) F R cs df 0 = Inr (df', n)"
    by (simp add: replace_in_csv_def)
  then have "list_all2 (column_result (re_version L) F R cs) df df'"
    by (rule csv_columns_result)
  with assms(3) have "column_result (re_version L) F R cs (df ! i) (df' ! i)"
    by (simp add: list_all2_conv_all_nth)
  with assms(4) have
    "list_all2 (\<lambda>c c'. \<exists>m k. replace_text (re_version L) (str_cell c) F R cs = Inr (m, k) \<and>
        c' = Str m) (cells (df ! i)) (cells (df' ! i))"
    by (simp add: column_result_def)
  with assms(5) obtain m k where
    mk: "replace_text (re_version L) (str_cell (cells (df ! i) ! j)) F R cs = Inr (m, k)"
      "cells (df' ! i) ! j = Str m"
    by (auto simp: list_all2_conv_all_nth)
  moreover have "m = str_cell (cells (df ! i) ! j)" if "k = 0"
    using mk(1) that by (auto dest: replace_text_zero)
  ultimately show ?thesis by auto
qed

theorem csv_object_cells_coerced_witness:
  "replace_in_csv
     (example_libs
        (\<lambda>b. Inr [\<lparr>header = ''city'', dtype = Object, cells = [Str ''Oslo'', NaN]\<rparr>])
        no_reader)
     (upload_of ''cities.csv'' [99, 105, 116, 121, 10, 79, 115, 108, 111, 10, 10])
     ''zz'' ''q'' False =
   Inr ([\<lparr>header = ''city'', dtype = Object, cells = [Str ''Oslo'', Str ''nan'']\<rparr>], 0) \<and>
   (\<exists>m k. replace_text Re_from_3_12 (str_cell NaN) ''zz'' ''q'' False = Inr (m, k) \<and>
      k = 0 \<and> m = ''nan'')"
proof -
  let ?col = "\<lparr>header = ''city'', dtype = Object, cells = [Str ''Oslo'', NaN]\<rparr>"
  let ?col' = "\<lparr>header = ''city'', dtype = Object, cells = [Str ''Oslo'', Str ''nan'']\<rparr>"
  let ?L = "example_libs (\<lambda>b. Inr [?col]) no_reader"
  let ?file = "upload_of ''cities.csv'' [99, 105, 116, 121, 10, 79, 115, 108, 111, 10, 10]"
  have parsed: "read_csv ?L (remaining ?file) = Inr [?col]"
    by (simp add: example_libs_def)
  have run: "replace_in_csv ?L ?file ''zz'' ''q'' False = Inr ([?col'], 0)"
    by code_simp
  have i: "0 < length [?col]" and obj: "dtype ([?col] ! 0) = Object"
    and j: "1 < length (cells ([?col] ! 0))" by simp_all
  from csv_object_cells_coerced [OF parsed run i obj j]
  obtain m k where
    mk: "replace_text (re_version ?L) (str_cell (cells ([?col] ! 0) ! 1)) ''zz'' ''q'' False =
          Inr (m, k)"
    and cell: "cells ([?col'] ! 0) ! 1 = Str m"
    by blast
  from cell have m: "m = ''nan''" by simp
  have "replace_text Re_from_3_12 (str_cell NaN) ''zz'' ''q'' False = Inr (''nan'', 0)"
    by code_simp
  with mk m run show ?thesis by (simp add: example_libs_def)
qed

subsection \<open>A table with headers only\<close>

text \<open>
  Claim C4 says that a table with headers and no rows succeeds with count 0. Every
  column \<open>read_csv\<close> makes of such a file is an empty object column, and the handler
  raises \<open>ValueError\<close> at the first of them: \<open>zip\<close> of no pairs yields nothing to unpack.
\<close>

theorem csv_headers_only_raises:
  "replace_in_csv
     (example_libs
        (\<lambda>b. Inr [\<lparr>header = ''name'', dtype = Object, cells = []\<rparr>,
                   \<lparr>header = ''city'', dtype = Object, cells = []\<rparr>])
        no_reader)
     (upload_of ''people.csv'' [110, 97, 109, 101, 44, 99, 105, 116, 121, 10])
     ''x'' ''y'' False = Inl ValueError"
  by code_simp

section \<open>Properties of the XML handler\<close>



subsection \<open>Tail text is out of reach\<close>



subsection \<open>The guard before the matcher\<close>

text \<open>
  Claim C2 says that the matcher runs on the text of every element under the configured
  case sensitivity. The handler first asks whether the find-term occurs in the text as
  it is spelt (\<open>find in elem.text\<close>), so with case-insensitive matching an element whose
  text has the term in another case only is left as it is and adds nothing to the
  count, where the matcher itself replaces it.
\<close>

theorem xml_guard_ignores_case_setting:
  "replace_in_xml
     (example_libs no_reader (\<lambda>b. Inr (Element ''a'' [] (Some ''Hello'') None [])))
     (upload_of ''greeting.xml'' [60, 97, 62, 72, 101, 108, 108, 111, 60, 47, 97, 62])
     ''hello'' ''hi'' False =
   Inr (Element ''a'' [] (Some ''Hello'') None [], 0) \<and>
   replace_text Re_from_3_12 ''Hello'' ''hello'' ''hi'' False = Inr (''hi'', 1)"
  by code_simp

section \<open>Properties of the batch\<close>

subsection \<open>What one file adds to the state\<close>

lemma archive_record_outcome:
  "archive (record_outcome st k r) =
     archive st @ (case r of Inr (Some (out, n)) \<Rightarrow> [(k, out)] | _ \<Rightarrow> [])"
  by (simp add: record_outcome_def split: sum.splits option.splits)

lemma shown_record_outcome:
  "shown (record_outcome st k r) =
     shown st @ (case r of Inl e \<Rightarrow> [ErrorProcessing k e]
                 | Inr None \<Rightarrow> [WarnUnsupported k] | _ \<Rightarrow> [])"
  by (simp add: record_outcome_def split: sum.splits option.splits)

lemma summary_record_outcome:
  "summary (record_outcome st k r) =
     (case r of Inr (Some (out, n)) \<Rightarrow> AList.update k n (summary st) | _ \<Rightarrow> summary st)"
  by (simp add: record_outcome_def split: sum.splits option.splits)

lemma process_files_archive:
  "archive (process_files L files F R cs st) = archive st @ archived L F R cs files"
  by (induction files arbitrary: st)
     (simp_all add: archived_def archive_record_outcome)

lemma process_files_shown:
  "shown (process_files L files F R cs st) =
     shown st @ filter (\<lambda>m. \<not> is_summary m) (map (outcome_of L F R cs) files)"
proof (induction files arbitrary: st)
  case Nil
  show ?case by simp
next
  case (Cons f fs)
  have "(case process_file L f F R cs of Inl e \<Rightarrow> [ErrorProcessing (name f) e]
          | Inr None \<Rightarrow> [WarnUnsupported (name f)] | _ \<Rightarrow> []) =
        filter (\<lambda>m. \<not> is_summary m) [outcome_of L F R cs f]"
    by (simp add: outcome_of_def split: sum.splits option.splits)
  with Cons show ?case by (simp add: shown_record_outcome)
qed

lemma update_fresh: "k \<notin> fst ` set al \<Longrightarrow> AList.update k v al = al @ [(k, v)]"
  by (induction al) auto

lemma update_same_mem: "(k, v) \<in> set (AList.update k v al)"
  by (induction al) auto

lemma update_other_mem:
  "k' \<noteq> k \<Longrightarrow> (k, v) \<in> set al \<Longrightarrow> (k, v) \<in> set (AList.update k' v' al)"
  by (induction al) auto

lemma summary_keys_step:
  "fst ` set (summary (record_outcome st k r)) \<subseteq> insert k (fst ` set (summary st))"
  by (simp add: summary_record_outcome dom_update subset_insertI
      split: sum.splits option.splits)

lemma summary_lines_step:
  "k \<notin> fst ` set (summary st) \<Longrightarrow>
   map (\<lambda>(f, c). SummaryLine f c) (summary (record_outcome st k r)) =
     map (\<lambda>(f, c). SummaryLine f c) (summary st) @
     (case r of Inr (Some (out, n)) \<Rightarrow> [SummaryLine k n] | _ \<Rightarrow> [])"
  by (simp add: summary_record_outcome update_fresh split: sum.splits option.splits)

lemma summary_outcome_of:
  "filter is_summary [outcome_of L F R cs f] =
     (case process_file L f F R cs of
        Inr (Some (out, n)) \<Rightarrow> [SummaryLine (name f) n] | _ \<Rightarrow> [])"
  by (simp add: outcome_of_def split: sum.splits option.splits)

lemma disjoint_step: "A \<subseteq> insert k B \<Longrightarrow> k \<notin> C \<Longrightarrow> B \<inter> C = {} \<Longrightarrow> A \<inter> C = {}"
  by blast

lemma head_fresh: "K \<inter> g ` set (f # fs) = {} \<Longrightarrow> g f \<notin> K"
  by auto

lemma head_not_later: "distinct (map g (f # fs)) \<Longrightarrow> g f \<notin> g ` set fs"
  by auto

lemma tail_disjoint: "K \<inter> g ` set (f # fs) = {} \<Longrightarrow> K \<inter> g ` set fs = {}"
  by auto

lemma process_files_summary_distinct:
  "distinct (map name files) \<Longrightarrow> fst ` set (summary st) \<inter> name ` set files = {} \<Longrightarrow>
   map (\<lambda>(f, c). SummaryLine f c) (summary (process_files L files F R cs st)) =
     map (\<lambda>(f, c). SummaryLine f c) (summary st) @
     filter is_summary (map (outcome_of L F R cs) files)"
proof (induction files arbitrary: st)
  case Nil
  then show ?case by simp
next
  case (Cons f fs)
  define st' where "st' = record_outcome st (name f) (process_file L f F R cs)"
  have fresh: "name f \<notin> fst ` set (summary st)"
    by (rule head_fresh [OF Cons.prems(2)])
  have keys: "fst ` set (summary st') \<subseteq> insert (name f) (fst ` set (summary st))"
    unfolding st'_def by (rule summary_keys_step)
  have disj: "fst ` set (summary st') \<inter> name ` set fs = {}"
    by (rule disjoint_step [OF keys head_not_later [OF Cons.prems(1)]
          tail_disjoint [OF Cons.prems(2)]])
  from Cons.prems(1) have dist: "distinct (map name fs)" by simp
  have step: "process_files L (f # fs) F R cs st = process_files L fs F R cs st'"
    by (simp add: st'_def)
  have "map (\<lambda>(f, c). SummaryLine f c) (summary st') =
     map (\<lambda>(f, c). SummaryLine f c) (summary st) @
     filter is_summary [outcome_of L F R cs f]"
    unfolding st'_def summary_outcome_of by (rule summary_lines_step [OF fresh])
  with Cons.IH [OF dist disj]
  have "map (\<lambda>(f, c). SummaryLine f c) (summary (process_files L fs F R cs st')) =
     map (\<lambda>(f, c). SummaryLine f c) (summary st) @
     (filter is_summary [outcome_of L F R cs f] @
      filter is_summary (map (outcome_of L F R cs) fs))"
    by (simp only: append_assoc)
  also have "filter is_summary [outcome_of L F R cs f] @
      filter is_summary (map (outcome_of L F R cs) fs) =
      filter is_summary (map (outcome_of L F R cs) (f # fs))"
    by simp
  finally show ?case unfolding step .
qed

lemma summary_final_entry:
  "\<forall>f \<in> set fs. name f = k \<longrightarrow> (\<exists>out. process_file L f F R cs = Inr (Some (out, v))) \<Longrightarrow>
   (\<exists>f \<in> set fs. name f = k) \<or> (k, v) \<in> set (summary st) \<Longrightarrow>
   (k, v) \<in> set (summary (process_files L fs F R cs st))"
proof (induction fs arbitrary: st)
  case Nil
  then show ?case by simp
next
  case (Cons f fs)
  define st' where "st' = record_outcome st (name f) (process_file L f F R cs)"
  have rest: "\<forall>f \<in> set fs. name f = k \<longrightarrow> (\<exists>out. process_file L f F R cs = Inr (Some (out, v)))"
    using Cons.prems(1) by simp
  have "(\<exists>f \<in> set fs. name f = k) \<or> (k, v) \<in> set (summary st')"
  proof (cases "name f = k")
    case True
    with Cons.prems(1) obtain out where "process_file L f F R cs = Inr (Some (out, v))"
      by auto
    with True have "summary st' = AList.update k v (summary st)"
      by (simp add: st'_def summary_record_outcome)
    then show ?thesis by (simp add: update_same_mem)
  next
    case False
    show ?thesis
    proof (cases "(k, v) \<in> set (summary st)")
      case True
      with False have "(k, v) \<in> set (summary st')"
        by (auto simp: st'_def summary_record_outcome update_other_mem
            split: sum.splits option.splits)
      then show ?thesis ..
    next
      case no: False
      with Cons.prems(2) False show ?thesis by auto
    qed
  qed
  from Cons.IH [OF rest this] show ?case by (simp add: st'_def)
qed

lemma is_summary_is_outcome: "is_summary m \<Longrightarrow> is_outcome m"
  by (cases m) simp_all

lemma is_outcome_outcome_of: "is_outcome (outcome_of L F R cs file)"
  by (auto simp: outcome_of_def split: sum.splits option.splits)

lemma is_outcome_summary_line:
  "filter is_outcome (map (\<lambda>(f, c). SummaryLine f c) al) = map (\<lambda>(f, c). SummaryLine f c) al"
  by (induction al) auto

lemma count_list_partition:
  "count_list (filter (\<lambda>x. \<not> P x) xs @ filter P xs) m = count_list xs m"
  by (induction xs) auto

lemma outcome_of_name:
  "outcome_of L F R cs f = ErrorProcessing k e \<Longrightarrow>
     name f = k \<and> process_file L f F R cs = Inl e"
  "outcome_of L F R cs f = WarnUnsupported k \<Longrightarrow>
     name f = k \<and> process_file L f F R cs = Inr None"
  by (auto simp: outcome_of_def split: sum.splits option.splits)

lemma process_file_xpt:
  "file_ext (name file) = ''xpt'' \<Longrightarrow>
   process_file L file F R cs = Inr (Some (RawFile (data file), 0))"
  by (simp add: process_file_def save_modified_file_def saved_def seek0_def remaining_def)




lemma start_replacement_page:
  "files \<noteq> [] \<Longrightarrow> F \<noteq> [] \<Longrightarrow>
   st = process_files L files F R cs \<lparr>summary = [], archive = [], shown = []\<rparr> \<Longrightarrow>
   start_replacement L files F R cs =
     shown st @ [DownloadButton (archive st), SummaryHeader] @
     map (\<lambda>(file, count). SummaryLine file count) (summary st) @ [AllDone]"
  by (simp add: start_replacement_def Let_def)

subsection \<open>One outcome for every file\<close>

text \<open>
  Claim C5, as amended. For every batch of input files with pairwise distinct names (and
  a non-empty find-term, without which no file is processed), a failure while processing
  one file does not stop the processing of the others, and every input file yields
  exactly one outcome on the page: a summary line with its count, an error message with
  the exception, or the warning that its type is not supported. The messages come first,
  in the order of the files, then the summary lines, in the order of the files.
\<close>

theorem batch_outcomes_distinct_names:
  assumes "files \<noteq> []" and "F \<noteq> []" and "distinct (map name files)"
  shows "filter is_outcome (start_replacement L files F R cs) =
           filter (\<lambda>m. \<not> is_summary m) (map (outcome_of L F R cs) files) @
           filter is_summary (map (outcome_of L F R cs) files) \<and>
         length (filter is_outcome (start_replacement L files F R cs)) = length files \<and>
         (\<forall>m. count_list (filter is_outcome (start_replacement L files F R cs)) m =
              count_list (map (outcome_of L F R cs) files) m)"
proof -
  define out where "out = map (outcome_of L F R cs) files"
  define st where
    "st = process_files L files F R cs \<lparr>summary = [], archive = [], shown = []\<rparr>"
  define page where "page = filter is_outcome (start_replacement L files F R cs)"
  have sh: "shown st = filter (\<lambda>m. \<not> is_summary m) out"
    by (simp add: process_files_shown st_def out_def)
  have su: "map (\<lambda>(f, c). SummaryLine f c) (summary st) = filter is_summary out"
    using process_files_summary_distinct [OF assms(3),
        of "\<lparr>summary = [], archive = [], shown = []\<rparr>"]
    by (simp add: st_def out_def)
  have outs: "\<forall>m \<in> set out. is_outcome m"
    by (auto simp: out_def is_outcome_outcome_of)
  have "page = filter is_outcome (shown st) @
        filter is_outcome (map (\<lambda>(f, c). SummaryLine f c) (summary st))"
    unfolding page_def start_replacement_page [OF assms(1,2) st_def] by simp
  also have "filter is_outcome (shown st) = filter (\<lambda>m. \<not> is_summary m) out"
    unfolding sh using outs by (intro filter_True) simp
  also have "filter is_outcome (map (\<lambda>(f, c). SummaryLine f c) (summary st)) =
        filter is_summary out"
    unfolding is_outcome_summary_line by (rule su)
  finally have eq: "page = filter (\<lambda>m. \<not> is_summary m) out @ filter is_summary out" .
  have "length page = length out"
    unfolding eq using sum_length_filter_compl [of is_summary out] by simp
  also have "\<dots> = length files" by (simp add: out_def)
  finally have len: "length page = length files" .
  have cnt: "\<forall>m. count_list page m = count_list out m"
    unfolding eq by (intro allI count_list_partition)
  from eq len cnt show ?thesis
    unfolding page_def out_def by (intro conjI)
qed

theorem batch_outcomes_distinct_names_witness:
  "filter is_outcome
     (start_replacement
        (example_libs no_reader (\<lambda>b. Inr (Element ''a'' [] (Some ''hello'') None [])))
        [upload_of ''one.xml'' [60, 97, 62, 104, 101, 108, 108, 111, 60, 47, 97, 62],
         upload_of ''two.pdf'' [37, 80, 68],
         upload_of ''three.xpt'' [1, 2, 3],
         upload_of ''four.txt'' [104, 105]]
        ''hello'' ''hi'' False) =
   [ErrorProcessing ''two.pdf'' (ParseError ''unreadable''), WarnUnsupported ''four.txt'',
    SummaryLine ''one.xml'' 1, SummaryLine ''three.xpt'' 0]"
proof -
  let ?L = "example_libs no_reader (\<lambda>b. Inr (Element ''a'' [] (Some ''hello'') None []))"
  let ?files = "[upload_of ''one.xml'' [60, 97, 62, 104, 101, 108, 108, 111, 60, 47, 97, 62],
         upload_of ''two.pdf'' [37, 80, 68],
         upload_of ''three.xpt'' [1, 2, 3],
         upload_of ''four.txt'' [104, 105]]"
  have ne: "?files \<noteq> []" and word: "''hello'' \<noteq> []" by simp_all
  have dist: "distinct (map name ?files)" by (simp add: upload_of_def)
  have outs: "map (outcome_of ?L ''hello'' ''hi'' False) ?files =
      [SummaryLine ''one.xml'' 1, ErrorProcessing ''two.pdf'' (ParseError ''unreadable''),
       SummaryLine ''three.xpt'' 0, WarnUnsupported ''four.txt'']"
    by code_simp
  from batch_outcomes_distinct_names [OF ne word dist, of ?L "''hi''" False]
  have "filter is_outcome (start_replacement ?L ?files ''hello'' ''hi'' False) =
           filter (\<lambda>m. \<not> is_summary m) (map (outcome_of ?L ''hello'' ''hi'' False) ?files) @
           filter is_summary (map (outcome_of ?L ''hello'' ''hi'' False) ?files)"
    by blast
  then show ?thesis unfolding outs by simp
qed

text \<open>
  Claim C5 as stated fails for two files of one name: the summary is a dictionary keyed
  by the file name, so the second count overwrites the first. Both files succeed, with 1
  and 0 replacements; the page has the one line of the second.
\<close>

theorem same_name_one_summary_line:
  "filter is_outcome
     (start_replacement
        (example_libs no_reader
           (\<lambda>b. if b = [60, 97, 62, 104, 101, 108, 108, 111, 60, 47, 97, 62]
                then Inr (Element ''a'' [] (Some ''hello'') None [])
                else Inr (Element ''a'' [] (Some ''bye'') None [])))
        [upload_of ''a.xml'' [60, 97, 62, 104, 101, 108, 108, 111, 60, 47, 97, 62],
         upload_of ''a.xml'' [60, 97, 62, 98, 121, 101, 60, 47, 97, 62]]
        ''hello'' ''hi'' True) =
   [SummaryLine ''a.xml'' 0] \<and>
   map (outcome_of
          (example_libs no_reader
             (\<lambda>b. if b = [60, 97, 62, 104, 101, 108, 108, 111, 60, 47, 97, 62]
                  then Inr (Element ''a'' [] (Some ''hello'') None [])
                  else Inr (Element ''a'' [] (Some ''bye'') None [])))
          ''hello'' ''hi'' True)
     [upload_of ''a.xml'' [60, 97, 62, 104, 101, 108, 108, 111, 60, 47, 97, 62],
      upload_of ''a.xml'' [60, 97, 62, 98, 121, 101, 60, 47, 97, 62]] =
   [SummaryLine ''a.xml'' 1, SummaryLine ''a.xml'' 0]"
  by code_simp

subsection \<open>A failed file is not archived\<close>




subsection \<open>The opaque format passes through\<close>

text \<open>
  Claim C7. For every file of a batch whose extension is \<open>xpt\<close>, wherever its read
  position stands, processing succeeds with count 0 and the file written for the archive
  holds exactly the bytes of the input; the archive has a member of the file's name with
  these bytes, the summary has the file's name with count 0, and the page has neither
  an error message nor a warning for the name.
\<close>

theorem xpt_passthrough:
  assumes "file \<in> set files" and "file_ext (name file) = ''xpt''"
  shows "process_file L file F R cs = Inr (Some (RawFile (data file), 0)) \<and>
         (name file, RawFile (data file)) \<in>
           set (archive (process_files L files F R cs
                  \<lparr>summary = [], archive = [], shown = []\<rparr>)) \<and>
         (name file, 0) \<in>
           set (summary (process_files L files F R cs
                  \<lparr>summary = [], archive = [], shown = []\<rparr>)) \<and>
         (F \<noteq> [] \<longrightarrow>
            (\<exists>members. DownloadButton members \<in> set (start_replacement L files F R cs) \<and>
               (name file, RawFile (data file)) \<in> set members) \<and>
            SummaryLine (name file) 0 \<in> set (start_replacement L files F R cs) \<and>
            (\<forall>e. ErrorProcessing (name file) e \<notin> set (start_replacement L files F R cs)) \<and>
            WarnUnsupported (name file) \<notin> set (start_replacement L files F R cs))"
proof -
  define st where
    "st = process_files L files F R cs \<lparr>summary = [], archive = [], shown = []\<rparr>"
  from assms(1) have ne: "files \<noteq> []" by auto
  have pf: "process_file L file F R cs = Inr (Some (RawFile (data file), 0))"
    by (rule process_file_xpt [OF assms(2)])
  have same: "process_file L f F R cs = Inr (Some (RawFile (data f), 0))"
    if "name f = name file" for f
    using that assms(2) by (simp add: process_file_xpt)
  have ar: "archive st = archived L F R cs files"
    by (simp add: st_def process_files_archive)
  from assms(1) pf have "(name file, RawFile (data file)) \<in> set (archived L F R cs files)"
    by (force simp: archived_def)
  with ar have mem: "(name file, RawFile (data file)) \<in> set (archive st)" by simp
  have entry: "(name file, 0) \<in> set (summary st)"
    unfolding st_def
    by (rule summary_final_entry) (use assms(1) same in auto)
  then have line: "SummaryLine (name file) 0 \<in>
      set (map (\<lambda>(file, count). SummaryLine file count) (summary st))"
    by force
  have sh: "shown st = filter (\<lambda>m. \<not> is_summary m) (map (outcome_of L F R cs) files)"
    by (simp add: st_def process_files_shown)
  have noerr: "ErrorProcessing (name file) e \<notin> set (shown st)" for e
  proof
    assume "ErrorProcessing (name file) e \<in> set (shown st)"
    then obtain f where "outcome_of L F R cs f = ErrorProcessing (name file) e"
      unfolding sh by auto
    from outcome_of_name(1) [OF this] same [of f] show False by simp
  qed
  have nowarn: "WarnUnsupported (name file) \<notin> set (shown st)"
  proof
    assume "WarnUnsupported (name file) \<in> set (shown st)"
    then obtain f where "outcome_of L F R cs f = WarnUnsupported (name file)"
      unfolding sh by auto
    from outcome_of_name(2) [OF this] same [of f] show False by simp
  qed
  have pagepart:
    "(\<exists>members. DownloadButton members \<in> set (start_replacement L files F R cs) \<and>
        (name file, RawFile (data file)) \<in> set members) \<and>
     SummaryLine (name file) 0 \<in> set (start_replacement L files F R cs) \<and>
     (\<forall>e. ErrorProcessing (name file) e \<notin> set (start_replacement L files F R cs)) \<and>
     WarnUnsupported (name file) \<notin> set (start_replacement L files F R cs)"
    if word: "F \<noteq> []"
  proof -
    note page = start_replacement_page [OF ne word st_def]
    have "DownloadButton (archive st) \<in> set (start_replacement L files F R cs)"
      unfolding page by simp
    moreover have "SummaryLine (name file) 0 \<in> set (start_replacement L files F R cs)"
      unfolding page using line by simp
    moreover have "ErrorProcessing (name file) e \<notin> set (start_replacement L files F R cs)"
      for e unfolding page using noerr [of e] by auto
    moreover have "WarnUnsupported (name file) \<notin> set (start_replacement L files F R cs)"
      unfolding page using nowarn by auto
    ultimately show ?thesis using mem by blast
  qed
  from pf mem entry pagepart show ?thesis unfolding st_def by blast
qed

theorem xpt_passthrough_witness:
  "process_file (example_libs no_reader no_reader)
     \<lparr>name = ''DATA.XPT'', data = [72, 69, 65, 68, 0, 255], pos = 4\<rparr> ''x'' ''y'' False =
     Inr (Some (RawFile [72, 69, 65, 68, 0, 255], 0)) \<and>
   SummaryLine ''DATA.XPT'' 0 \<in>
     set (start_replacement (example_libs no_reader no_reader)
            [upload_of ''two.pdf'' [37, 80, 68],
             \<lparr>name = ''DATA.XPT'', data = [72, 69, 65, 68, 0, 255], pos = 4\<rparr>]
            ''x'' ''y'' False)"
proof -
  let ?L = "example_libs no_reader no_reader"
  let ?file = "\<lparr>name = ''DATA.XPT'', data = [72, 69, 65, 68, 0, 255], pos = 4\<rparr>"
  let ?files = "[upload_of ''two.pdf'' [37, 80, 68], ?file]"
  have mem: "?file \<in> set ?files" by simp
  have ext: "file_ext (name ?file) = ''xpt''" by code_simp
  have word: "''x'' \<noteq> []" by simp
  from xpt_passthrough [OF mem ext, of ?L "''x''" "''y''" False] word
  show ?thesis by simp
qed

section \<open>Properties of the PDF handler\<close>









end
